theory Spec2Isabelle
  imports Main "HOL-Library.Multiset" "HOL-Library.Sublist"
begin

section \<open>Python values used by \<^verbatim>\<open>helpers.py\<close>\<close>

text \<open>
  A Python \<^verbatim>\<open>str\<close> is a sequence of Unicode code points; it is modelled as the list of
  its code points. Tuples are immutable sequences and are modelled as lists, so an n-gram
  (a tuple of tokens) is a list of tokens and a set of n-grams is a set of lists.
\<close>

type_synonym pystr = "nat list"

definition py_str :: "string \<Rightarrow> pystr" where
  "py_str s = map of_char s"

text \<open>
  The code points for which \<^verbatim>\<open>str.isspace\<close> holds; \<^verbatim>\<open>str.split()\<close> with no
  separator splits on runs of them.
\<close>

definition py_isspace :: "nat \<Rightarrow> bool" where
  "py_isspace c \<longleftrightarrow>
     (9 \<le> c \<and> c \<le> 13) \<or> (28 \<le> c \<and> c \<le> 32) \<or> c = 133 \<or> c = 160 \<or> c = 5760 \<or>
     (8192 \<le> c \<and> c \<le> 8202) \<or> c = 8232 \<or> c = 8233 \<or> c = 8239 \<or> c = 8287 \<or>
     c = 12288"

text \<open>
  \<^verbatim>\<open>s.split()\<close>: the maximal runs of non-whitespace code points, left to right. The
  first argument is the token being read.
\<close>

fun split_from :: "pystr \<Rightarrow> pystr \<Rightarrow> pystr list" where
  "split_from w [] = (if w = [] then [] else [w])"
| "split_from w (c # cs) =
     (if py_isspace c then (if w = [] then split_from [] cs else w # split_from [] cs)
      else split_from (w @ [c]) cs)"

definition py_split :: "pystr \<Rightarrow> pystr list" where
  "py_split s = split_from [] s"

text \<open>
  \<^verbatim>\<open>xs[lo:hi]\<close>: a negative index counts from the end, and both indices are clamped to
  the list; the slice is empty when the bounds cross.
\<close>

definition slice_index :: "nat \<Rightarrow> int \<Rightarrow> nat" where
  "slice_index len i = (if i < 0 then nat (max 0 (int len + i)) else min (nat i) len)"

definition py_slice :: "'a list \<Rightarrow> int \<Rightarrow> int \<Rightarrow> 'a list" where
  "py_slice xs lo hi =
     (let l = slice_index (length xs) lo; h = slice_index (length xs) hi
      in take (h - l) (drop l xs))"

text \<open>\<^verbatim>\<open>range(m)\<close>: 0, 1, ..., m - 1, empty when m is not positive.\<close>

definition py_range :: "int \<Rightarrow> int list" where
  "py_range m = [0..m - 1]"

section \<open>N-grams and trigram blocking\<close>

text \<open>
  \<^verbatim>\<open>
  def _get_ngrams(n, text):
      ngram_set = set()
      text_length = len(text)
      max_index_ngram_start = text_length - n
      for i in range(max_index_ngram_start + 1):
          ngram_set.add(tuple(text[i : i + n]))
      return ngram_set
  \<close>
\<close>

definition get_ngrams :: "int \<Rightarrow> 'a list \<Rightarrow> 'a list set" where
  "get_ngrams n text =
     (let ngram_set = {};
          text_length = int (length text);
          max_index_ngram_start = text_length - n
      in fold (\<lambda>i ngram_set. insert (py_slice text i (i + n)) ngram_set)
           (py_range (max_index_ngram_start + 1)) ngram_set)"

text \<open>
  \<^verbatim>\<open>
  def block_trigrams(c, p):
      tri_c = _get_ngrams(3, c.split())
      for s in p:
          tri_s = _get_ngrams(3, s.split())
          if len(tri_c.intersection(tri_s))>0:
              return True
      return False
  \<close>
  The loop over \<^verbatim>\<open>p\<close> returns at the first span that shares a trigram.
\<close>

fun block_loop :: "pystr list set \<Rightarrow> pystr list \<Rightarrow> bool" where
  "block_loop tri_c [] = False"
| "block_loop tri_c (s # p) =
     (let tri_s = get_ngrams 3 (py_split s)
      in if card (tri_c \<inter> tri_s) > 0 then True else block_loop tri_c p)"

definition block_trigrams :: "pystr \<Rightarrow> pystr list \<Rightarrow> bool" where
  "block_trigrams c p = (let tri_c = get_ngrams 3 (py_split c) in block_loop tri_c p)"

text \<open>
  The n-gram set as the specification describes it: the set of all tuples of \<open>n\<close>
  contiguous tokens of a token sequence, where \<open>sublist t ws\<close> says that \<open>t\<close> occurs in
  \<open>ws\<close> as a contiguous run.
\<close>

definition contiguous_tuples :: "nat \<Rightarrow> 'a list \<Rightarrow> 'a list set" where
  "contiguous_tuples n ws = {t. length t = n \<and> sublist t ws}"

section \<open>Word n-grams over several sentences\<close>

datatype py_error = AssertionError | ValueError | UnboundLocalError | TypeError

text \<open>\<^verbatim>\<open>sum(xss, start)\<close> on lists: \<^verbatim>\<open>start + xss[0] + xss[1] + ...\<close>, from the left.\<close>

definition py_sum :: "'a list list \<Rightarrow> 'a list \<Rightarrow> 'a list" where
  "py_sum xss start = foldl (@) start xss"

text \<open>
  \<^verbatim>\<open>
  def _get_word_ngrams(n, sentences):
      assert len(sentences) > 0
      assert n > 0
      words = sum(sentences, [])
      return _get_ngrams(n, words)
  \<close>
\<close>

definition get_word_ngrams :: "int \<Rightarrow> 'a list list \<Rightarrow> py_error + 'a list set" where
  "get_word_ngrams n sentences =
     (if \<not> length sentences > 0 then Inl AssertionError
      else if \<not> n > 0 then Inl AssertionError
      else let words = py_sum sentences [] in Inr (get_ngrams n words))"

section \<open>Padding\<close>

text \<open>\<^verbatim>\<open>max(...)\<close> of a sequence; it raises \<^verbatim>\<open>ValueError\<close> on an empty one.\<close>

fun py_max :: "int list \<Rightarrow> py_error + int" where
  "py_max [] = Inl ValueError"
| "py_max (x # xs) = Inr (fold max xs x)"

text \<open>\<^verbatim>\<open>xs * m\<close>: \<open>m\<close> copies of the list, none when \<open>m\<close> is not positive.\<close>

definition py_mul :: "'a list \<Rightarrow> int \<Rightarrow> 'a list" where
  "py_mul xs m = concat (replicate (nat m) xs)"

text \<open>
  \<^verbatim>\<open>
  def pad(data, pad_id, width=None, pad_on_left=False):
      if not width:
          width = max(len(d) for d in data)
      if pad_on_left:
          rtn_data = [[pad_id] * (width - len(d)) + d for d in data]
      else:
          rtn_data = [d + [pad_id] * (width - len(d)) for d in data]
      return rtn_data
  \<close>
  \<^verbatim>\<open>not width\<close> holds for \<^verbatim>\<open>None\<close> and for 0.
\<close>

definition pad_width :: "'a list list \<Rightarrow> int option \<Rightarrow> py_error + int" where
  "pad_width data width =
     (case width of
        None \<Rightarrow> py_max (map (\<lambda>d. int (length d)) data)
      | Some w \<Rightarrow> if w = 0 then py_max (map (\<lambda>d. int (length d)) data) else Inr w)"

definition pad :: "'a list list \<Rightarrow> 'a \<Rightarrow> int option \<Rightarrow> bool \<Rightarrow> py_error + 'a list list" where
  "pad data pad_id width pad_on_left =
     (case pad_width data width of
        Inl e \<Rightarrow> Inl e
      | Inr width \<Rightarrow>
          if pad_on_left
          then Inr (map (\<lambda>d. py_mul [pad_id] (width - int (length d)) @ d) data)
          else Inr (map (\<lambda>d. d @ py_mul [pad_id] (width - int (length d))) data))"

section \<open>Loading documents\<close>

text \<open>
  \<^verbatim>\<open>s.rfind(c)\<close> for a one-character \<open>c\<close>: the highest index of \<open>c\<close> in \<open>s\<close>, or -1.
\<close>

fun rfind :: "'a list \<Rightarrow> 'a \<Rightarrow> int" where
  "rfind [] c = -1"
| "rfind (x # xs) c =
     (let r = rfind xs c in if r \<ge> 0 then r + 1 else if x = c then 0 else -1)"

text \<open>
  \<^verbatim>\<open>os.path.splitext\<close> of \<^verbatim>\<open>posixpath\<close> (separator \<^verbatim>\<open>/\<close>, extension separator
  \<^verbatim>\<open>.\<close>): the extension starts at the last dot of the last path component, unless that
  component has only dots before it.
  \<^verbatim>\<open>
  sepIndex = p.rfind(sep)
  dotIndex = p.rfind(extsep)
  if dotIndex > sepIndex:
      filenameIndex = sepIndex + 1
      while filenameIndex < dotIndex:
          if p[filenameIndex:filenameIndex+1] != extsep:
              return p[:dotIndex], p[dotIndex:]
          filenameIndex += 1
  return p, p[:0]
  \<close>
\<close>

definition splitext :: "pystr \<Rightarrow> pystr \<times> pystr" where
  "splitext p =
     (let sepIndex = rfind p 47;
          dotIndex = rfind p 46
      in if dotIndex > sepIndex \<and>
            (\<exists>c \<in> set (py_slice p (sepIndex + 1) dotIndex). c \<noteq> 46)
         then (py_slice p 0 dotIndex, py_slice p dotIndex (int (length p)))
         else (p, []))"

text \<open>
  The files and the JSON parser are outside the program: \<open>read_json\<close> stands for opening
  a path and \<^verbatim>\<open>json.load\<close>, \<open>read_gzip_json\<close> for \<^verbatim>\<open>gzip.open\<close>, decoding and
  \<^verbatim>\<open>json.loads\<close>; either may raise. The logger is the list of the messages logged so
  far. The local \<^verbatim>\<open>documents\<close> is unbound (\<open>None\<close>) until a branch assigns it, and
  reading an unbound local raises \<^verbatim>\<open>UnboundLocalError\<close>.
  \<^verbatim>\<open>
  def load_json(json_file):
      file_path, file_extension = os.path.splitext(json_file)
      if file_extension == ".json":
          with open(json_file, "r") as json_file_object:
              documents = json.load(json_file_object)
      elif file_extension == ".gz":
          file_path = os.path.splitext(file_path)[0]  # remove ".gz"
          with gzip.open(json_file, "r") as json_gzip:
              json_bytes = json_gzip.read()
          json_str = json_bytes.decode("utf-8")
          documents = json.loads(json_str)
      else:
          logger.error("File extension " + str(file_extension)
              + " not recognized. Please use either '.json' or '.gz'.")
      return documents, file_path
  \<close>
\<close>

definition read_local :: "'d option \<Rightarrow> py_error + 'd" where
  "read_local v = (case v of None \<Rightarrow> Inl UnboundLocalError | Some d \<Rightarrow> Inr d)"

definition load_json ::
  "(pystr \<Rightarrow> py_error + 'd) \<Rightarrow> (pystr \<Rightarrow> py_error + 'd) \<Rightarrow> pystr \<Rightarrow> pystr list \<Rightarrow>
     (py_error + 'd \<times> pystr) \<times> pystr list" where
  "load_json read_json read_gzip_json json_file logger =
     (let (file_path, file_extension) = splitext json_file
      in if file_extension = py_str ''.json'' then
           (case read_json json_file of
              Inl e \<Rightarrow> (Inl e, logger)
            | Inr documents \<Rightarrow> (Inr (documents, file_path), logger))
         else if file_extension = py_str ''.gz'' then
           (let file_path = fst (splitext file_path)
            in case read_gzip_json json_file of
                 Inl e \<Rightarrow> (Inl e, logger)
               | Inr documents \<Rightarrow> (Inr (documents, file_path), logger))
         else
           (let logger = logger @ [py_str ''File extension '' @ file_extension @
                  py_str '' not recognized. Please use either '' @ [39] @ py_str ''.json'' @
                  [39] @ py_str '' or '' @ [39] @ py_str ''.gz'' @ [39] @ py_str ''.''];
                documents = None
            in (case read_local documents of
                  Inl e \<Rightarrow> (Inl e, logger)
                | Inr documents \<Rightarrow> (Inr (documents, file_path), logger))))"

section \<open>Trigram blocking over an explicit object store\<close>

text \<open>
  To state what a call does to the objects it is given, the same code is also modelled
  over a store of mutable objects. Strings and tuples are immutable in Python and stay
  values; a list and a set are objects, named by their address in the store. A new object
  gets the next free address. An address that does not hold an object of the kind the
  operation needs is a \<^verbatim>\<open>TypeError\<close>. Every operation returns its result, or the error
  raised, together with the store it leaves.
\<close>

type_synonym addr = nat

datatype obj = List_obj "pystr list" | Set_obj "pystr list set"

type_synonym store = "obj list"

type_synonym 'a outcome = "(py_error + 'a) \<times> store"

definition new_obj :: "obj \<Rightarrow> store \<Rightarrow> addr \<times> store" where
  "new_obj v h = (length h, h @ [v])"

definition list_at :: "store \<Rightarrow> addr \<Rightarrow> py_error + pystr list" where
  "list_at h a =
     (if a < length h
      then (case h ! a of List_obj xs \<Rightarrow> Inr xs | Set_obj S \<Rightarrow> Inl TypeError)
      else Inl TypeError)"

definition set_at :: "store \<Rightarrow> addr \<Rightarrow> py_error + pystr list set" where
  "set_at h a =
     (if a < length h
      then (case h ! a of List_obj xs \<Rightarrow> Inl TypeError | Set_obj S \<Rightarrow> Inr S)
      else Inl TypeError)"

text \<open>\<^verbatim>\<open>s.split()\<close> returns a new list.\<close>

definition split_st :: "pystr \<Rightarrow> store \<Rightarrow> addr \<times> store" where
  "split_st s h = new_obj (List_obj (py_split s)) h"

text \<open>\<^verbatim>\<open>a.add(t)\<close> changes the set at \<open>a\<close> in place.\<close>

definition set_add :: "addr \<Rightarrow> pystr list \<Rightarrow> store \<Rightarrow> unit outcome" where
  "set_add a t h =
     (case set_at h a of
        Inl e \<Rightarrow> (Inl e, h)
      | Inr S \<Rightarrow> (Inr (), h[a := Set_obj (insert t S)]))"

text \<open>\<^verbatim>\<open>a.intersection(b)\<close> returns a new set and changes neither operand.\<close>

definition intersection_st :: "addr \<Rightarrow> addr \<Rightarrow> store \<Rightarrow> addr outcome" where
  "intersection_st a b h =
     (case set_at h a of
        Inl e \<Rightarrow> (Inl e, h)
      | Inr A \<Rightarrow>
          (case set_at h b of
             Inl e \<Rightarrow> (Inl e, h)
           | Inr B \<Rightarrow> (let (r, h') = new_obj (Set_obj (A \<inter> B)) h in (Inr r, h'))))"

definition len_st :: "addr \<Rightarrow> store \<Rightarrow> py_error + int" where
  "len_st a h = (case set_at h a of Inl e \<Rightarrow> Inl e | Inr S \<Rightarrow> Inr (int (card S)))"

text \<open>
  The loop of \<^verbatim>\<open>_get_ngrams\<close>: each turn reads the list at \<open>text\<close> and adds one slice
  to the set at \<open>ngram_set\<close>.
\<close>

fun ngram_loop :: "int \<Rightarrow> addr \<Rightarrow> addr \<Rightarrow> int list \<Rightarrow> store \<Rightarrow> unit outcome" where
  "ngram_loop n text ngram_set [] h = (Inr (), h)"
| "ngram_loop n text ngram_set (i # rest) h =
     (case list_at h text of
        Inl e \<Rightarrow> (Inl e, h)
      | Inr ws \<Rightarrow>
          (case set_add ngram_set (py_slice ws i (i + n)) h of
             (Inl e, h') \<Rightarrow> (Inl e, h')
           | (Inr u, h') \<Rightarrow> ngram_loop n text ngram_set rest h'))"

definition get_ngrams_st :: "int \<Rightarrow> addr \<Rightarrow> store \<Rightarrow> addr outcome" where
  "get_ngrams_st n text h =
     (let (ngram_set, h) = new_obj (Set_obj {}) h
      in case list_at h text of
           Inl e \<Rightarrow> (Inl e, h)
         | Inr ws \<Rightarrow>
             (let text_length = int (length ws);
                  max_index_ngram_start = text_length - n
              in case ngram_loop n text ngram_set (py_range (max_index_ngram_start + 1)) h of
                   (Inl e, h') \<Rightarrow> (Inl e, h')
                 | (Inr u, h') \<Rightarrow> (Inr ngram_set, h')))"

text \<open>
  The body of the loop of \<^verbatim>\<open>block_trigrams\<close> for the span \<open>s\<close>; its result is the test
  \<^verbatim>\<open>len(tri_c.intersection(tri_s))>0\<close>.
\<close>

definition block_body :: "addr \<Rightarrow> pystr \<Rightarrow> store \<Rightarrow> bool outcome" where
  "block_body tri_c s h =
     (let (toks, h) = split_st s h
      in case get_ngrams_st 3 toks h of
           (Inl e, h) \<Rightarrow> (Inl e, h)
         | (Inr tri_s, h) \<Rightarrow>
             (case intersection_st tri_c tri_s h of
                (Inl e, h) \<Rightarrow> (Inl e, h)
              | (Inr both, h) \<Rightarrow>
                  (case len_st both h of
                     Inl e \<Rightarrow> (Inl e, h)
                   | Inr k \<Rightarrow> (Inr (k > 0), h))))"

text \<open>
  \<^verbatim>\<open>for s in p\<close> on a list object: the iterator holds an index \<open>i\<close> and reads the list
  at \<open>p\<close> anew at every turn, so a body that grew the list would keep the loop running.
  The loop is therefore a partial function; that it returns is part of what is proved.
\<close>

partial_function (option) block_loop_st ::
  "addr \<Rightarrow> addr \<Rightarrow> nat \<Rightarrow> store \<Rightarrow> bool outcome option" where
  "block_loop_st tri_c p i h =
     (case list_at h p of
        Inl e \<Rightarrow> Some (Inl e, h)
      | Inr ps \<Rightarrow>
          if i < length ps then
            (case block_body tri_c (ps ! i) h of
               (Inl e, h') \<Rightarrow> Some (Inl e, h')
             | (Inr b, h') \<Rightarrow>
                 if b then Some (Inr True, h') else block_loop_st tri_c p (i + 1) h')
          else Some (Inr False, h))"

declare block_loop_st.simps [code]

text \<open>\<open>c\<close> is the candidate string, \<open>p\<close> the address of the list of accepted spans.\<close>

definition block_trigrams_st :: "pystr \<Rightarrow> addr \<Rightarrow> store \<Rightarrow> bool outcome option" where
  "block_trigrams_st c p h =
     (let (toks, h) = split_st c h
      in case get_ngrams_st 3 toks h of
           (Inl e, h) \<Rightarrow> Some (Inl e, h)
         | (Inr tri_c, h) \<Rightarrow> block_loop_st tri_c p 0 h)"

section \<open>Properties of whitespace splitting\<close>

text \<open>
  The tokens of \<open>py_split\<close> are the string without its whitespace, cut into non-empty
  pieces that hold no whitespace.
\<close>

lemma concat_split_from:
  "concat (split_from w cs) = w @ filter (\<lambda>c. \<not> py_isspace c) cs"
  by (induction cs arbitrary: w) simp_all

lemma concat_py_split: "concat (py_split s) = filter (\<lambda>c. \<not> py_isspace c) s"
  by (simp add: py_split_def concat_split_from)

lemma split_from_tokens:
  "list_all (\<lambda>c. \<not> py_isspace c) w \<Longrightarrow> t \<in> set (split_from w cs) \<Longrightarrow>
     t \<noteq> [] \<and> list_all (\<lambda>c. \<not> py_isspace c) t"
proof (induction cs arbitrary: w)
  case Nil
  then show ?case by (simp split: if_splits)
next
  case (Cons c cs)
  show ?case
  proof (cases "py_isspace c")
    case True
    then have "t = w \<and> w \<noteq> [] \<or> t \<in> set (split_from [] cs)"
      using Cons.prems(2) by (auto split: if_splits)
    then show ?thesis
    proof
      assume "t = w \<and> w \<noteq> []"
      then show ?thesis using Cons.prems(1) by simp
    next
      assume "t \<in> set (split_from [] cs)"
      then show ?thesis using Cons.IH[of "[]"] by simp
    qed
  next
    case False
    then have "t \<in> set (split_from (w @ [c]) cs)"
      using Cons.prems(2) by simp
    moreover have "list_all (\<lambda>c. \<not> py_isspace c) (w @ [c])"
      using Cons.prems(1) False by simp
    ultimately show ?thesis using Cons.IH[of "w @ [c]"] by simp
  qed
qed

lemma py_split_tokens:
  "t \<in> set (py_split s) \<Longrightarrow> t \<noteq> [] \<and> list_all (\<lambda>c. \<not> py_isspace c) t"
  unfolding py_split_def using split_from_tokens[of "[]" t s] by simp

section \<open>Properties of the n-gram set\<close>

lemma fold_insert_image: "fold (\<lambda>i S. insert (f i) S) xs S0 = f ` set xs \<union> S0"
  by (induction xs arbitrary: S0) auto

lemma set_py_range: "set (py_range m) = {0..m - 1}"
  by (simp add: py_range_def)

lemma get_ngrams_image:
  "get_ngrams n ws = (\<lambda>i. py_slice ws i (i + n)) ` {0..int (length ws) - n}"
  by (simp add: get_ngrams_def fold_insert_image set_py_range)

lemma finite_get_ngrams: "finite (get_ngrams n ws)"
  by (simp add: get_ngrams_image)

text \<open>Inside the list a slice of non-negative bounds is a \<open>take\<close> of a \<open>drop\<close>.\<close>

lemma py_slice_window:
  "j + k \<le> length xs \<Longrightarrow> py_slice xs (int j) (int j + int k) = take k (drop j xs)"
proof -
  assume le: "j + k \<le> length xs"
  have "int j + int k = int (j + k)" by simp
  then have "slice_index (length xs) (int j + int k) = j + k"
    using le unfolding slice_index_def by (simp del: of_nat_add)
  moreover have "slice_index (length xs) (int j) = j"
    using le by (simp add: slice_index_def)
  ultimately show ?thesis by (simp add: py_slice_def)
qed

lemma get_ngrams_windows:
  "get_ngrams (int k) ws = {take k (drop j ws) | j. j + k \<le> length ws}"
proof -
  have "(\<lambda>i. py_slice ws i (i + int k)) ` {0..int (length ws) - int k}
      = (\<lambda>j. take k (drop j ws)) ` {j. j + k \<le> length ws}" (is "?L = ?R")
  proof (intro set_eqI iffI)
    fix t assume "t \<in> ?L"
    then obtain i where i: "0 \<le> i" "i \<le> int (length ws) - int k"
      and t: "t = py_slice ws i (i + int k)"
      by auto
    define j where "j = nat i"
    have "j + k \<le> length ws" "i = int j" using i by (auto simp: j_def)
    then show "t \<in> ?R" using t py_slice_window[of j k ws] by auto
  next
    fix t assume "t \<in> ?R"
    then obtain j where j: "j + k \<le> length ws" and t: "t = take k (drop j ws)" by auto
    have "int j \<in> {0..int (length ws) - int k}" using j by auto
    moreover have "t = py_slice ws (int j) (int j + int k)"
      using j t py_slice_window by metis
    ultimately show "t \<in> ?L" by blast
  qed
  then show ?thesis by (auto simp: get_ngrams_image)
qed

lemma sublist_window:
  "length t = k \<and> sublist t ws \<longleftrightarrow> (\<exists>j. j + k \<le> length ws \<and> t = take k (drop j ws))"
proof
  assume "length t = k \<and> sublist t ws"
  then obtain ps ss where "ws = ps @ t @ ss" "length t = k" by (auto simp: sublist_def)
  then have "length ps + k \<le> length ws \<and> t = take k (drop (length ps) ws)" by simp
  then show "\<exists>j. j + k \<le> length ws \<and> t = take k (drop j ws)" by blast
next
  assume "\<exists>j. j + k \<le> length ws \<and> t = take k (drop j ws)"
  then obtain j where j: "j + k \<le> length ws" "t = take k (drop j ws)" by blast
  have "ws = take j ws @ t @ drop k (drop j ws)"
    using j by (metis append_take_drop_id)
  then have "sublist t ws" unfolding sublist_def by blast
  moreover have "length t = k" using j by simp
  ultimately show "length t = k \<and> sublist t ws" by simp
qed

lemma get_ngrams_contiguous: "get_ngrams (int k) ws = contiguous_tuples k ws"
  unfolding get_ngrams_windows contiguous_tuples_def using sublist_window[of _ k ws] by auto

lemma get_ngrams_Nil: "get_ngrams (int k) [] = (if k = 0 then {[]} else {})"
  by (auto simp: get_ngrams_windows)

lemma window_Cons:
  "(\<exists>j. j + k \<le> Suc (length xs) \<and> t = take k (drop j (x # xs))) \<longleftrightarrow>
     (k \<le> Suc (length xs) \<and> t = take k (x # xs)) \<or>
     (\<exists>j. j + k \<le> length xs \<and> t = take k (drop j xs))"
proof
  assume "\<exists>j. j + k \<le> Suc (length xs) \<and> t = take k (drop j (x # xs))"
  then obtain j where j: "j + k \<le> Suc (length xs)" "t = take k (drop j (x # xs))" by blast
  show "(k \<le> Suc (length xs) \<and> t = take k (x # xs)) \<or>
        (\<exists>j. j + k \<le> length xs \<and> t = take k (drop j xs))"
  proof (cases j)
    case 0
    then show ?thesis using j by simp
  next
    case (Suc j')
    then show ?thesis using j by auto
  qed
next
  assume "(k \<le> Suc (length xs) \<and> t = take k (x # xs)) \<or>
          (\<exists>j. j + k \<le> length xs \<and> t = take k (drop j xs))"
  then show "\<exists>j. j + k \<le> Suc (length xs) \<and> t = take k (drop j (x # xs))"
  proof
    assume "k \<le> Suc (length xs) \<and> t = take k (x # xs)"
    then have "0 + k \<le> Suc (length xs) \<and> t = take k (drop 0 (x # xs))" by simp
    then show ?thesis by blast
  next
    assume "\<exists>j. j + k \<le> length xs \<and> t = take k (drop j xs)"
    then obtain j where "j + k \<le> length xs" "t = take k (drop j xs)" by blast
    then have "Suc j + k \<le> Suc (length xs) \<and> t = take k (drop (Suc j) (x # xs))" by simp
    then show ?thesis by blast
  qed
qed

lemma get_ngrams_Cons:
  "get_ngrams (int k) (x # xs) =
     (if k \<le> Suc (length xs) then {take k (x # xs)} else {}) \<union> get_ngrams (int k) xs"
  using window_Cons[of k xs _ x] by (auto simp: get_ngrams_windows)

lemma trigrams_Nil: "get_ngrams 3 [] = {}"
  using get_ngrams_Nil[of 3] by simp

lemma trigrams_Cons:
  "get_ngrams 3 (x # xs) =
     (if 2 \<le> length xs then {take 3 (x # xs)} else {}) \<union> get_ngrams 3 xs"
  using get_ngrams_Cons[of 3 x xs] by (simp add: numeral_3_eq_3)

lemma trigrams_contiguous: "get_ngrams 3 ws = contiguous_tuples 3 ws"
  using get_ngrams_contiguous[of 3 ws] by simp

lemma trigrams_short: "length ws < 3 \<Longrightarrow> get_ngrams 3 ws = {}"
  using get_ngrams_windows[of 3 ws] by simp

lemma trigrams_long: "3 \<le> length ws \<Longrightarrow> take 3 ws \<in> get_ngrams 3 ws"
proof -
  assume "3 \<le> length ws"
  then have "0 + 3 \<le> length ws \<and> take 3 ws = take 3 (drop 0 ws)" by simp
  then have "take 3 ws \<in> {take 3 (drop j ws) | j. j + 3 \<le> length ws}" by blast
  then show ?thesis using get_ngrams_windows[of 3 ws] by simp
qed

section \<open>Properties of trigram blocking\<close>

lemma block_loop_iff:
  "block_loop tri_c p \<longleftrightarrow> (\<exists>s\<in>set p. tri_c \<inter> get_ngrams 3 (py_split s) \<noteq> {})"
proof (induction p)
  case Nil
  show ?case by simp
next
  case (Cons s p)
  have "finite (tri_c \<inter> get_ngrams 3 (py_split s))"
    by (simp add: finite_get_ngrams)
  then have "0 < card (tri_c \<inter> get_ngrams 3 (py_split s)) \<longleftrightarrow>
      tri_c \<inter> get_ngrams 3 (py_split s) \<noteq> {}"
    by (simp add: card_gt_0_iff)
  then show ?case using Cons.IH by (simp add: Let_def)
qed

lemma block_trigrams_iff:
  "block_trigrams c p \<longleftrightarrow>
     (\<exists>s\<in>set p. get_ngrams 3 (py_split c) \<inter> get_ngrams 3 (py_split s) \<noteq> {})"
  by (simp add: block_trigrams_def block_loop_iff)

lemmas eval_split = py_split_def py_str_def py_isspace_def trigrams_Nil trigrams_Cons

text \<open>
  C1. \<open>block_trigrams c p\<close> is true exactly when the set of the tuples of 3 contiguous
  tokens of the whitespace tokenization of \<open>c\<close> meets that of some element of \<open>p\<close>; for
  the candidate "the cat sat on the mat" and the accepted span "the cat sat near a tree"
  the result is true.
\<close>

theorem block_trigrams_shared_trigram:
  "(block_trigrams c p \<longleftrightarrow>
      (\<exists>s\<in>set p. contiguous_tuples 3 (py_split c) \<inter> contiguous_tuples 3 (py_split s) \<noteq> {}))
   \<and> block_trigrams (py_str ''the cat sat on the mat'') [py_str ''the cat sat near a tree'']"
proof
  show "block_trigrams c p \<longleftrightarrow>
      (\<exists>s\<in>set p. contiguous_tuples 3 (py_split c) \<inter> contiguous_tuples 3 (py_split s) \<noteq> {})"
    by (simp add: block_trigrams_iff trigrams_contiguous)
  show "block_trigrams (py_str ''the cat sat on the mat'') [py_str ''the cat sat near a tree'']"
    by (simp add: block_trigrams_iff eval_split)
qed

theorem block_trigrams_shared_trigram_witness:
  "\<not> block_trigrams (py_str ''dogs run fast'') [py_str ''the cat sat on the mat''] \<and>
   contiguous_tuples 3 (py_split (py_str ''dogs run fast'')) \<inter>
     contiguous_tuples 3 (py_split (py_str ''the cat sat on the mat'')) = {}"
proof -
  have "\<not> block_trigrams (py_str ''dogs run fast'') [py_str ''the cat sat on the mat'']"
    by (simp add: block_trigrams_iff eval_split)
  then show ?thesis
    using block_trigrams_shared_trigram
      [of "py_str ''dogs run fast''" "[py_str ''the cat sat on the mat'']"]
    by simp
qed

text \<open>
  C2. A candidate whose whitespace tokenization has fewer than 3 tokens (the empty string
  included) has an empty trigram set and is not blocked, whatever the accepted spans.
\<close>

theorem block_trigrams_short_candidate:
  "length (py_split candidate) < 3 \<Longrightarrow>
     get_ngrams 3 (py_split candidate) = {} \<and> \<not> block_trigrams candidate accepted_spans"
  by (simp add: block_trigrams_iff trigrams_short)

theorem block_trigrams_short_candidate_witness:
  "length (py_split (py_str ''ab'')) < 3 \<and> length (py_split (py_str [])) < 3 \<and>
   \<not> block_trigrams (py_str ''ab'') [py_str ''ab cd ef''] \<and>
   \<not> block_trigrams (py_str []) [py_str ''ab cd ef'']"
proof -
  have 1: "length (py_split (py_str ''ab'')) < 3" by (simp add: eval_split)
  have 2: "length (py_split (py_str [])) < 3" by (simp add: eval_split)
  show ?thesis
    using 1 2 block_trigrams_short_candidate[OF 1, of "[py_str ''ab cd ef'']"]
      block_trigrams_short_candidate[OF 2, of "[py_str ''ab cd ef'']"]
    by simp
qed

text \<open>C3. With the empty list of accepted spans no candidate is blocked.\<close>

theorem block_trigrams_no_spans: "\<not> block_trigrams candidate []"
  by (simp add: block_trigrams_def)

text \<open>
  C4. A candidate of at least 3 tokens that is equal to one of the accepted spans is
  blocked.
\<close>

theorem block_trigrams_same_span:
  "3 \<le> length (py_split candidate) \<Longrightarrow> candidate \<in> set accepted_spans \<Longrightarrow>
     block_trigrams candidate accepted_spans"
proof -
  assume len: "3 \<le> length (py_split candidate)" and mem: "candidate \<in> set accepted_spans"
  have "take 3 (py_split candidate) \<in> get_ngrams 3 (py_split candidate)"
    using len by (rule trigrams_long)
  then have "get_ngrams 3 (py_split candidate) \<inter> get_ngrams 3 (py_split candidate) \<noteq> {}"
    by blast
  then show ?thesis using mem unfolding block_trigrams_iff by blast
qed

theorem block_trigrams_same_span_witness:
  "3 \<le> length (py_split (py_str ''the cat sat'')) \<and>
   py_str ''the cat sat'' \<in> set [py_str ''a dog'', py_str ''the cat sat''] \<and>
   block_trigrams (py_str ''the cat sat'') [py_str ''a dog'', py_str ''the cat sat'']"
proof -
  have 1: "3 \<le> length (py_split (py_str ''the cat sat''))" by (simp add: eval_split)
  have 2: "py_str ''the cat sat'' \<in> set [py_str ''a dog'', py_str ''the cat sat'']" by simp
  show ?thesis using 1 2 block_trigrams_same_span[OF 1 2] by simp
qed

text \<open>C5. Reordering the accepted spans does not change the result.\<close>

theorem block_trigrams_permutation:
  "mset p = mset p' \<Longrightarrow> block_trigrams c p = block_trigrams c p'"
proof -
  assume "mset p = mset p'"
  then have "set p = set p'" by (rule mset_eq_setD)
  then show ?thesis by (simp add: block_trigrams_iff)
qed

theorem block_trigrams_permutation_witness:
  "mset [py_str ''a dog'', py_str ''the cat sat''] =
     mset [py_str ''the cat sat'', py_str ''a dog''] \<and>
   block_trigrams (py_str ''the cat sat up'') [py_str ''a dog'', py_str ''the cat sat''] =
     block_trigrams (py_str ''the cat sat up'') [py_str ''the cat sat'', py_str ''a dog''] \<and>
   block_trigrams (py_str ''the cat sat up'') [py_str ''a dog'', py_str ''the cat sat'']"
proof -
  have 1: "mset [py_str ''a dog'', py_str ''the cat sat''] =
      mset [py_str ''the cat sat'', py_str ''a dog'']"
    by simp
  have 2: "block_trigrams (py_str ''the cat sat up'') [py_str ''a dog'', py_str ''the cat sat'']"
    by (simp add: block_trigrams_iff eval_split)
  show ?thesis
    using 1 2 block_trigrams_permutation[OF 1, of "py_str ''the cat sat up''"] by simp
qed

text \<open>
  C9. Blocking is monotone in the accepted spans: a candidate blocked by \<open>p\<close> is blocked
  by \<open>p\<close> with further spans appended or prepended.
\<close>

theorem block_trigrams_monotone:
  "block_trigrams c p \<Longrightarrow> block_trigrams c (p @ q) \<and> block_trigrams c (q @ p)"
  by (auto simp: block_trigrams_iff)

theorem block_trigrams_monotone_witness:
  "block_trigrams (py_str ''the cat sat up'') [py_str ''the cat sat''] \<and>
   block_trigrams (py_str ''the cat sat up'') ([py_str ''the cat sat''] @ [py_str ''a dog'']) \<and>
   block_trigrams (py_str ''the cat sat up'') ([py_str ''a dog''] @ [py_str ''the cat sat''])"
proof -
  have 1: "block_trigrams (py_str ''the cat sat up'') [py_str ''the cat sat'']"
    by (simp add: block_trigrams_iff eval_split)
  show ?thesis using 1 block_trigrams_monotone[OF 1, of "[py_str ''a dog'']"] by simp
qed

section \<open>Properties of the word n-grams\<close>

lemma py_sum_concat: "py_sum xss start = start @ concat xss"
  unfolding py_sum_def by (induction xss arbitrary: start) simp_all

text \<open>
  C8. For \<open>n > 0\<close> and a non-empty list of token sequences, the word n-grams are the
  n-grams of the concatenation, left to right, of all the sequences.
\<close>

theorem get_word_ngrams_concat:
  "n > 0 \<Longrightarrow> sentences \<noteq> [] \<Longrightarrow>
     get_word_ngrams n sentences = Inr (get_ngrams n (concat sentences))"
  by (simp add: get_word_ngrams_def py_sum_concat)

theorem get_word_ngrams_concat_witness:
  "(2::int) > 0 \<and> [[1::nat, 2], [3], [], [4]] \<noteq> [] \<and>
   get_word_ngrams 2 [[1::nat, 2], [3], [], [4]] = Inr {[1, 2], [2, 3], [3, 4]}"
proof -
  have 1: "(2::int) > 0" by simp
  have 2: "[[1::nat, 2], [3], [], [4]] \<noteq> []" by simp
  have c: "get_ngrams 2 (x # xs) =
      (if 1 \<le> length xs then {take 2 (x # xs)} else {}) \<union> get_ngrams 2 xs"
    for x :: nat and xs
    using get_ngrams_Cons[of 2 x xs] by simp
  have n: "get_ngrams 2 ([] :: nat list) = {}"
    using get_ngrams_Nil[of 2] by simp
  have 3: "get_ngrams 2 [1::nat, 2, 3, 4] = {[1, 2], [2, 3], [3, 4]}"
    by (simp add: c n insert_commute)
  show ?thesis using 1 2 3 get_word_ngrams_concat[OF 1 2] by simp
qed

section \<open>Properties of padding\<close>

lemma py_mul_single: "py_mul [x] m = replicate (nat m) x"
  unfolding py_mul_def by (induction "nat m" arbitrary: m) (simp_all add: replicate_app_Cons_same)

lemma py_max_Max: "xs \<noteq> [] \<Longrightarrow> py_max xs = Inr (Max (set xs))"
proof (cases xs)
  case Nil
  assume "xs \<noteq> []"
  with Nil show ?thesis by simp
next
  case (Cons a list)
  show ?thesis by (simp only: Cons py_max.simps Max.set_eq_fold)
qed

lemma pad_width_value:
  "data \<noteq> [] \<Longrightarrow>
     pad_width data width =
       Inr (if width = None \<or> width = Some 0
            then Max (set (map (\<lambda>d. int (length d)) data)) else the width)"
  by (cases width) (simp_all add: pad_width_def py_max_Max)

lemma pad_value:
  "pad_width data width = Inr w \<Longrightarrow>
     pad data pad_id width pad_on_left =
       Inr (map (\<lambda>d. if pad_on_left then replicate (nat (w - int (length d))) pad_id @ d
                       else d @ replicate (nat (w - int (length d))) pad_id) data)"
  by (simp add: pad_def py_mul_single)

text \<open>
  C10. \<open>pad\<close> never truncates. For a non-empty \<open>data\<close> it returns a list of the same
  length; with \<open>w\<close> the width in force (the maximum element length when \<open>width\<close> is
  \<open>None\<close> or 0, \<open>width\<close> otherwise), an element at least \<open>w\<close> long is returned
  unchanged, and a shorter one is extended by \<open>w - len\<close> copies of \<open>pad_id\<close> on the chosen
  side; when \<open>width\<close> is \<open>None\<close> or 0, every element of the result is exactly as long as
  the longest element of \<open>data\<close>.
\<close>

theorem pad_never_truncates:
  assumes "data \<noteq> []"
  shows "\<exists>w out.
     pad data pad_id width pad_on_left = Inr out \<and>
     w = (if width = None \<or> width = Some 0
          then Max (set (map (\<lambda>d. int (length d)) data)) else the width) \<and>
     length out = length data \<and>
     (\<forall>i<length data.
        (w \<le> int (length (data ! i)) \<longrightarrow> out ! i = data ! i) \<and>
        (int (length (data ! i)) < w \<longrightarrow>
           out ! i =
             (if pad_on_left
              then replicate (nat (w - int (length (data ! i)))) pad_id @ data ! i
              else data ! i @ replicate (nat (w - int (length (data ! i)))) pad_id))) \<and>
     ((width = None \<or> width = Some 0) \<longrightarrow> (\<forall>e\<in>set out. int (length e) = w))"
proof -
  define w where "w = (if width = None \<or> width = Some 0
          then Max (set (map (\<lambda>d. int (length d)) data)) else the width)"
  define out where "out = map (\<lambda>d. if pad_on_left
          then replicate (nat (w - int (length d))) pad_id @ d
          else d @ replicate (nat (w - int (length d))) pad_id) data"
  have pw: "pad_width data width = Inr w"
    using assms by (simp add: pad_width_value w_def)
  have res: "pad data pad_id width pad_on_left = Inr out"
    using pad_value[OF pw] by (simp add: out_def)
  have len: "length out = length data"
    by (simp add: out_def)
  have elems: "\<forall>i<length data.
        (w \<le> int (length (data ! i)) \<longrightarrow> out ! i = data ! i) \<and>
        (int (length (data ! i)) < w \<longrightarrow>
           out ! i =
             (if pad_on_left
              then replicate (nat (w - int (length (data ! i)))) pad_id @ data ! i
              else data ! i @ replicate (nat (w - int (length (data ! i)))) pad_id))"
    by (simp add: out_def)
  have full: "\<forall>e\<in>set out. int (length e) = w" if "width = None \<or> width = Some 0"
  proof
    fix e assume "e \<in> set out"
    then have "e \<in> (\<lambda>d. if pad_on_left then replicate (nat (w - int (length d))) pad_id @ d
                   else d @ replicate (nat (w - int (length d))) pad_id) ` set data"
      by (simp add: out_def)
    then obtain d where d: "d \<in> set data"
      and e: "e = (if pad_on_left then replicate (nat (w - int (length d))) pad_id @ d
                   else d @ replicate (nat (w - int (length d))) pad_id)"
      by blast
    have "w = Max (set (map (\<lambda>d. int (length d)) data))"
      using that by (simp add: w_def)
    moreover have "int (length d) \<in> set (map (\<lambda>d. int (length d)) data)"
      using d by simp
    ultimately have "int (length d) \<le> w"
      by (metis List.finite_set Max_ge)
    then show "int (length e) = w" using e by simp
  qed
  show ?thesis
    using res len elems full w_def by blast
qed

theorem pad_never_truncates_witness:
  "[[1::nat, 2, 3], [4], []] \<noteq> [] \<and>
   pad [[1::nat, 2, 3], [4], []] 0 None False = Inr [[1, 2, 3], [4, 0, 0], [0, 0, 0]] \<and>
   pad [[1::nat, 2, 3], [4], []] 0 (Some 2) True = Inr [[1, 2, 3], [0, 4], [0, 0]]"
proof -
  have 1: "[[1::nat, 2, 3], [4], []] \<noteq> []" by simp
  have 2: "pad [[1::nat, 2, 3], [4], []] 0 None False = Inr [[1, 2, 3], [4, 0, 0], [0, 0, 0]]"
    by (simp add: pad_def pad_width_def py_mul_single numeral_3_eq_3 numeral_2_eq_2)
  have 3: "pad [[1::nat, 2, 3], [4], []] 0 (Some 2) True = Inr [[1, 2, 3], [0, 4], [0, 0]]"
    by (simp add: pad_def pad_width_def py_mul_single numeral_2_eq_2)
  show ?thesis
    using 1 2 3 pad_never_truncates[OF 1, of 0 None False] by simp
qed

section \<open>Properties of loading documents\<close>

lemma load_json_unrecognized:
  "snd (splitext json_file) \<noteq> py_str ''.json'' \<Longrightarrow>
   snd (splitext json_file) \<noteq> py_str ''.gz'' \<Longrightarrow>
     load_json read_json read_gzip_json json_file logger =
       (Inl UnboundLocalError,
        logger @ [py_str ''File extension '' @ snd (splitext json_file) @
          py_str '' not recognized. Please use either '' @ [39] @ py_str ''.json'' @
          [39] @ py_str '' or '' @ [39] @ py_str ''.gz'' @ [39] @ py_str ''.''])"
  by (cases "splitext json_file") (simp add: load_json_def read_local_def)

lemma splitext_data_txt: "splitext (py_str ''data.txt'') = (py_str ''data'', py_str ''.txt'')"
  by (simp add: splitext_def py_str_def py_slice_def slice_index_def Let_def)

text \<open>
  C7. With a path whose last extension is neither \<^verbatim>\<open>.json\<close> nor \<^verbatim>\<open>.gz\<close>, here
  \<^verbatim>\<open>data.txt\<close>, \<open>load_json\<close> logs the error and then raises \<^verbatim>\<open>UnboundLocalError\<close>
  at its \<^verbatim>\<open>return\<close>, since no branch has assigned \<^verbatim>\<open>documents\<close>: it returns nothing.
\<close>

theorem load_json_data_txt_raises:
  "load_json read_json read_gzip_json (py_str ''data.txt'') logger =
     (Inl UnboundLocalError,
      logger @ [py_str (''File extension .txt not recognized. Please use either '' @
        [CHR 0x27] @ ''.json'' @ [CHR 0x27] @ '' or '' @ [CHR 0x27] @ ''.gz'' @ [CHR 0x27] @ ''.'')])"
proof -
  have "snd (splitext (py_str ''data.txt'')) \<noteq> py_str ''.json''"
       "snd (splitext (py_str ''data.txt'')) \<noteq> py_str ''.gz''"
    by (simp_all add: splitext_data_txt) (simp_all add: py_str_def)
  from load_json_unrecognized[OF this] show ?thesis
    by (simp add: splitext_data_txt) (simp add: py_str_def)
qed

section \<open>Properties of trigram blocking over the store\<close>

lemma list_at_length: "list_at h a = Inr xs \<Longrightarrow> a < length h"
  by (simp add: list_at_def split: if_splits)

lemma set_at_length: "set_at h a = Inr S \<Longrightarrow> a < length h"
  by (simp add: set_at_def split: if_splits)

lemma list_at_append: "list_at h a = Inr xs \<Longrightarrow> list_at (h @ ys) a = Inr xs"
  by (simp add: list_at_def nth_append split: if_splits)

lemma set_at_append: "set_at h a = Inr S \<Longrightarrow> set_at (h @ ys) a = Inr S"
  by (simp add: set_at_def nth_append split: if_splits)

lemma list_at_new: "list_at (h @ List_obj xs # ys) (length h) = Inr xs"
  by (simp add: list_at_def)

lemma set_at_new: "set_at (h @ Set_obj S # ys) (length h) = Inr S"
  by (simp add: set_at_def)

lemma list_at_not_set: "list_at h a = Inr xs \<Longrightarrow> set_at h b = Inr S \<Longrightarrow> a \<noteq> b"
  by (auto simp: list_at_def set_at_def split: if_splits obj.splits)

lemma list_at_update:
  "list_at h a = Inr xs \<Longrightarrow> a \<noteq> b \<Longrightarrow> list_at (h[b := v]) a = Inr xs"
  by (simp add: list_at_def split: if_splits)

lemma set_at_update: "b < length h \<Longrightarrow> set_at (h[b := Set_obj S]) b = Inr S"
  by (simp add: set_at_def)

text \<open>The loop of \<open>get_ngrams_st\<close> changes the set at \<open>ngram_set\<close> and nothing else.\<close>

lemma ngram_loop_run:
  "list_at h text = Inr ws \<Longrightarrow> set_at h a = Inr S \<Longrightarrow>
     ngram_loop n text a rest h =
       (Inr (), h[a := Set_obj (fold (\<lambda>i S. insert (py_slice ws i (i + n)) S) rest S)])"
proof (induction rest arbitrary: h S)
  case Nil
  have "a < length h" "h ! a = Set_obj S"
    using Nil.prems(2) by (auto simp: set_at_def split: if_splits obj.splits)
  then have "h[a := Set_obj S] = h" by (metis list_update_id)
  then show ?case by simp
next
  case (Cons i rest)
  let ?h = "h[a := Set_obj (insert (py_slice ws i (i + n)) S)]"
  have neq: "text \<noteq> a"
    using Cons.prems by (rule list_at_not_set)
  have add: "set_add a (py_slice ws i (i + n)) h = (Inr (), ?h)"
    using Cons.prems(2) by (simp add: set_add_def)
  have l: "list_at ?h text = Inr ws"
    using Cons.prems(1) neq by (rule list_at_update)
  have s: "set_at ?h a = Inr (insert (py_slice ws i (i + n)) S)"
    using set_at_length[OF Cons.prems(2)] by (rule set_at_update)
  have "ngram_loop n text a (i # rest) h = ngram_loop n text a rest ?h"
    using Cons.prems(1) add by simp
  also have "\<dots> = (Inr (), ?h[a := Set_obj (fold (\<lambda>i S. insert (py_slice ws i (i + n)) S)
      rest (insert (py_slice ws i (i + n)) S))])"
    using l s by (rule Cons.IH)
  finally show ?case by simp
qed

text \<open>
  \<open>get_ngrams_st\<close> appends one object to the store, the set of the n-grams of the list
  it was given, and returns its address.
\<close>

lemma get_ngrams_st_run:
  assumes "list_at h text = Inr ws"
  shows "get_ngrams_st n text h = (Inr (length h), h @ [Set_obj (get_ngrams n ws)])"
proof -
  let ?h = "h @ [Set_obj {}]"
  have l: "list_at ?h text = Inr ws"
    using assms by (rule list_at_append)
  have s: "set_at ?h (length h) = Inr {}"
    by (rule set_at_new)
  have "ngram_loop n text (length h) (py_range (int (length ws) - n + 1)) ?h =
      (Inr (), ?h[length h := Set_obj (get_ngrams n ws)])"
    using ngram_loop_run[OF l s] by (simp add: get_ngrams_def)
  then show ?thesis
    using l by (simp add: get_ngrams_st_def new_obj_def)
qed

lemma intersection_st_run:
  "set_at h a = Inr A \<Longrightarrow> set_at h b = Inr B \<Longrightarrow>
     intersection_st a b h = (Inr (length h), h @ [Set_obj (A \<inter> B)])"
  by (simp add: intersection_st_def new_obj_def)

text \<open>One turn of the loop of \<open>block_trigrams_st\<close> appends three objects to the store.\<close>

lemma block_body_run:
  assumes "set_at h tri_c = Inr T"
  shows "block_body tri_c s h =
     (Inr (0 < card (T \<inter> get_ngrams 3 (py_split s))),
      h @ [List_obj (py_split s), Set_obj (get_ngrams 3 (py_split s)),
           Set_obj (T \<inter> get_ngrams 3 (py_split s))])"
proof -
  let ?h1 = "h @ [List_obj (py_split s)]"
  let ?h2 = "?h1 @ [Set_obj (get_ngrams 3 (py_split s))]"
  let ?h3 = "?h2 @ [Set_obj (T \<inter> get_ngrams 3 (py_split s))]"
  have 1: "split_st s h = (length h, ?h1)"
    by (simp add: split_st_def new_obj_def)
  have "list_at ?h1 (length h) = Inr (py_split s)"
    by (rule list_at_new)
  then have 2: "get_ngrams_st 3 (length h) ?h1 = (Inr (length ?h1), ?h2)"
    by (rule get_ngrams_st_run)
  have t: "set_at ?h2 tri_c = Inr T"
    using assms by (simp add: set_at_append)
  have "set_at ?h2 (length ?h1) = Inr (get_ngrams 3 (py_split s))"
    by (rule set_at_new)
  with t have 3: "intersection_st tri_c (length ?h1) ?h2 = (Inr (length ?h2), ?h3)"
    by (rule intersection_st_run)
  have "set_at ?h3 (length ?h2) = Inr (T \<inter> get_ngrams 3 (py_split s))"
    by (rule set_at_new)
  then have 4: "len_st (length ?h2) ?h3 = Inr (int (card (T \<inter> get_ngrams 3 (py_split s))))"
    by (simp add: len_st_def)
  show ?thesis
    unfolding block_body_def 1 by (simp only: prod.case Let_def 2 3 4 sum.case)
      simp
qed

text \<open>
  The loop over the accepted spans returns, with the result of the loop of the pure
  model on the spans from index \<open>i\<close> on, and leaves every object of the store as it was.
\<close>

lemma block_loop_st_run:
  "list_at h p = Inr ps \<Longrightarrow> set_at h tri_c = Inr T \<Longrightarrow> i \<le> length ps \<Longrightarrow>
     \<exists>h'. block_loop_st tri_c p i h = Some (Inr (block_loop T (drop i ps)), h') \<and> prefix h h'"
proof (induction "length ps - i" arbitrary: i h)
  case 0
  then have "\<not> i < length ps" "drop i ps = []" by simp_all
  then have "block_loop_st tri_c p i h = Some (Inr (block_loop T (drop i ps)), h)"
    using "0.prems"(1) by (subst block_loop_st.simps) simp
  then show ?case by blast
next
  case (Suc k)
  then have lt: "i < length ps" by simp
  let ?s = "ps ! i"
  let ?b = "0 < card (T \<inter> get_ngrams 3 (py_split ?s))"
  let ?h = "h @ [List_obj (py_split ?s), Set_obj (get_ngrams 3 (py_split ?s)),
           Set_obj (T \<inter> get_ngrams 3 (py_split ?s))]"
  have body: "block_body tri_c ?s h = (Inr ?b, ?h)"
    using Suc.prems(2) by (rule block_body_run)
  have d: "drop i ps = ?s # drop (Suc i) ps"
    using lt by (simp add: Cons_nth_drop_Suc)
  have pre: "prefix h ?h" by simp
  show ?case
  proof (cases ?b)
    case True
    have "block_loop_st tri_c p i h = Some (Inr True, ?h)"
      using Suc.prems(1) lt body True by (subst block_loop_st.simps) simp
    moreover have "block_loop T (drop i ps)"
      using True by (simp add: d)
    ultimately show ?thesis using pre by auto
  next
    case False
    have step: "block_loop_st tri_c p i h = block_loop_st tri_c p (Suc i) ?h"
      using Suc.prems(1) lt body False by (subst block_loop_st.simps) simp
    have "k = length ps - Suc i" using Suc.hyps(2) by simp
    moreover have "list_at ?h p = Inr ps"
      using Suc.prems(1) by (rule list_at_append)
    moreover have "set_at ?h tri_c = Inr T"
      using Suc.prems(2) by (rule set_at_append)
    moreover have "Suc i \<le> length ps" using lt by simp
    ultimately obtain h' where
      h': "block_loop_st tri_c p (Suc i) ?h = Some (Inr (block_loop T (drop (Suc i) ps)), h')"
      "prefix ?h h'"
      using Suc.hyps(1) by blast
    have "block_loop T (drop i ps) = block_loop T (drop (Suc i) ps)"
      using False by (simp add: d)
    moreover have "prefix h h'"
      using pre h'(2) by (rule prefix_order.trans)
    ultimately show ?thesis using step h'(1) by auto
  qed
qed

lemma block_trigrams_st_run:
  assumes "list_at h p = Inr ps"
  shows "\<exists>h'. block_trigrams_st c p h = Some (Inr (block_trigrams c ps), h') \<and> prefix h h'"
proof -
  let ?h1 = "h @ [List_obj (py_split c)]"
  let ?h2 = "?h1 @ [Set_obj (get_ngrams 3 (py_split c))]"
  have 1: "split_st c h = (length h, ?h1)"
    by (simp add: split_st_def new_obj_def)
  have "list_at ?h1 (length h) = Inr (py_split c)"
    by (rule list_at_new)
  then have 2: "get_ngrams_st 3 (length h) ?h1 = (Inr (length ?h1), ?h2)"
    by (rule get_ngrams_st_run)
  have call: "block_trigrams_st c p h = block_loop_st (length ?h1) p 0 ?h2"
    unfolding block_trigrams_st_def 1 by (simp only: prod.case Let_def 2 sum.case)
  have "list_at ?h2 p = Inr ps"
    using assms by (simp add: list_at_append)
  moreover have "set_at ?h2 (length ?h1) = Inr (get_ngrams 3 (py_split c))"
    by (rule set_at_new)
  ultimately obtain h' where
    h': "block_loop_st (length ?h1) p 0 ?h2 =
           Some (Inr (block_loop (get_ngrams 3 (py_split c)) (drop 0 ps)), h')"
    "prefix ?h2 h'"
    using block_loop_st_run[of ?h2 p ps "length ?h1" "get_ngrams 3 (py_split c)" 0] by auto
  have "prefix h ?h2" by simp
  then have "prefix h h'"
    using h'(2) by (rule prefix_order.trans)
  then show ?thesis
    using call h'(1) by (simp add: block_trigrams_def)
qed

lemma prefix_list_at: "prefix h h' \<Longrightarrow> list_at h a = Inr xs \<Longrightarrow> list_at h' a = Inr xs"
  by (auto simp: prefix_def list_at_append)

text \<open>
  C6. \<open>block_trigrams\<close> is a pure, deterministic function of its two arguments. Called
  with the candidate \<open>c\<close> and the address \<open>p\<close> of a list of spans \<open>ps\<close>, in any store,
  it returns, and the boolean returned is the one the spans and the candidate determine;
  every object that was in the store is left as it was (the store only grows by the
  call's own temporary objects), so the list at \<open>p\<close> is still \<open>ps\<close>; and a call in any
  store, the one this call leaves included, with an equal candidate and an equal list
  returns the same boolean.
\<close>

theorem block_trigrams_pure:
  assumes "list_at h p = Inr ps"
  shows "\<exists>h'. block_trigrams_st c p h = Some (Inr (block_trigrams c ps), h') \<and>
           prefix h h' \<and> list_at h' p = Inr ps \<and>
           map_option fst (block_trigrams_st c p h') = Some (Inr (block_trigrams c ps)) \<and>
           (\<forall>h2 p2. list_at h2 p2 = Inr ps \<longrightarrow>
              map_option fst (block_trigrams_st c p2 h2) = map_option fst (block_trigrams_st c p h))"
proof -
  obtain h' where h': "block_trigrams_st c p h = Some (Inr (block_trigrams c ps), h')"
    "prefix h h'"
    using block_trigrams_st_run[OF assms] by blast
  have l: "list_at h' p = Inr ps"
    using h'(2) assms by (rule prefix_list_at)
  have any: "map_option fst (block_trigrams_st c p2 h2) = Some (Inr (block_trigrams c ps))"
    if "list_at h2 p2 = Inr ps" for h2 p2
    using block_trigrams_st_run[OF that, of c] by auto
  show ?thesis
    using h' l any[OF l] any[OF assms] any by auto
qed

theorem block_trigrams_pure_witness:
  "list_at [List_obj [py_str ''x y'', py_str ''b c d e'']] 0 =
     Inr [py_str ''x y'', py_str ''b c d e''] \<and>
   (\<exists>h'. block_trigrams_st (py_str ''a b c d'') 0 [List_obj [py_str ''x y'', py_str ''b c d e'']] =
            Some (Inr True, h') \<and>
          prefix [List_obj [py_str ''x y'', py_str ''b c d e'']] h' \<and>
          map_option fst (block_trigrams_st (py_str ''a b c d'') 0 h') = Some (Inr True))"
proof -
  have 1: "list_at [List_obj [py_str ''x y'', py_str ''b c d e'']] 0 =
      Inr [py_str ''x y'', py_str ''b c d e'']"
    by (simp add: list_at_def)
  have 2: "block_trigrams (py_str ''a b c d'') [py_str ''x y'', py_str ''b c d e'']"
    by (simp add: block_trigrams_iff eval_split)
  show ?thesis
    using 1 2 block_trigrams_pure[OF 1, of "py_str ''a b c d''"] by auto
qed

end
